theory Spec2Isabelle
  imports Complex_Main "HOL-Library.Word" "HOL-Library.Sublist"
begin

section \<open>JavaScript values used by usePopcorn\<close>

subsection \<open>Strings\<close>

text \<open>
  A JavaScript string is a sequence of UTF-16 code units, and \<^verbatim>\<open>s.length\<close> counts
  code units.  String literals of the source are written with \<open>lit\<close>.
\<close>

type_synonym code_unit = "16 word"
type_synonym js_string = "code_unit list"

definition lit :: "string \<Rightarrow> js_string" where
  "lit s = map (\<lambda>c. of_nat (of_char c)) s"

subsection \<open>Numbers\<close>

text \<open>
  A JavaScript number is NaN, an infinity or a finite value.  A finite value is kept
  as the exact rational it stands for: IEEE rounding is outside this development, and
  \<open>-0\<close> is identified with \<open>0\<close> (they are \<^verbatim>\<open>===\<close>).
\<close>

datatype js_number = NaN | PosInf | NegInf | Finite rat

fun js_add :: "js_number \<Rightarrow> js_number \<Rightarrow> js_number" where
  "js_add NaN _ = NaN"
| "js_add _ NaN = NaN"
| "js_add PosInf NegInf = NaN"
| "js_add NegInf PosInf = NaN"
| "js_add PosInf _ = PosInf"
| "js_add _ PosInf = PosInf"
| "js_add NegInf _ = NegInf"
| "js_add _ NegInf = NegInf"
| "js_add (Finite a) (Finite b) = Finite (a + b)"

fun js_div :: "js_number \<Rightarrow> js_number \<Rightarrow> js_number" where
  "js_div NaN _ = NaN"
| "js_div _ NaN = NaN"
| "js_div (Finite a) (Finite b) =
     (if b = 0 then (if a = 0 then NaN else if 0 < a then PosInf else NegInf)
      else Finite (a / b))"
| "js_div (Finite a) _ = Finite 0"
| "js_div PosInf (Finite b) = (if 0 \<le> b then PosInf else NegInf)"
| "js_div NegInf (Finite b) = (if 0 \<le> b then NegInf else PosInf)"
| "js_div _ _ = NaN"

subsection \<open>Array methods\<close>

text \<open>
  \<^verbatim>\<open>arr.reduce(f, init)\<close>: the callback receives the accumulator, the current element,
  its index and the whole array, from index 0 upwards; with an initial value an empty
  array returns that value without calling the callback.
\<close>

fun reduce_from ::
  "('b \<Rightarrow> 'a \<Rightarrow> nat \<Rightarrow> 'a list \<Rightarrow> 'b) \<Rightarrow> 'a list \<Rightarrow> nat \<Rightarrow> 'b \<Rightarrow> 'a list \<Rightarrow> 'b" where
  "reduce_from f arr i acc [] = acc"
| "reduce_from f arr i acc (cur # rest) = reduce_from f arr (Suc i) (f acc cur i arr) rest"

definition reduce :: "('b \<Rightarrow> 'a \<Rightarrow> nat \<Rightarrow> 'a list \<Rightarrow> 'b) \<Rightarrow> 'b \<Rightarrow> 'a list \<Rightarrow> 'b" where
  "reduce f init arr = reduce_from f arr 0 init arr"

section \<open>App.js: the watched collection\<close>

text \<open>
  \<^verbatim>\<open>const average = (arr) => arr.reduce((acc, cur, i, arr) => acc + cur / arr.length, 0);\<close>
\<close>

definition average :: "js_number list \<Rightarrow> js_number" where
  "average arr =
     reduce (\<lambda>acc cur i arr. js_add acc (js_div cur (Finite (of_nat (length arr)))))
       (Finite 0) arr"

text \<open>
  The object built by \<^verbatim>\<open>handleAdd\<close>.  \<open>title\<close>, \<open>year\<close> and \<open>poster\<close> are copied
  from the detail record and are \<^verbatim>\<open>undefined\<close> (\<open>None\<close>) when it lacks them.
\<close>

record watched_movie =
  imdbID :: js_string
  title :: "js_string option"
  year :: "js_string option"
  poster :: "js_string option"
  runtime :: js_number
  imdbRating :: js_number
  userRating :: js_number
  countRatingDecision :: nat

text \<open>The three aggregates computed by \<^verbatim>\<open>WatchedSummary\<close>.\<close>

record watched_summary =
  avgImdbRating :: js_number
  avgUserRating :: js_number
  avgRuntime :: js_number

definition WatchedSummary :: "watched_movie list \<Rightarrow> watched_summary" where
  "WatchedSummary watched =
     \<lparr> avgImdbRating = average (map imdbRating watched),
       avgUserRating = average (map userRating watched),
       avgRuntime = average (map runtime watched) \<rparr>"

text \<open>
  The per-element accumulation the specification describes: start from 0 and add
  \<open>value / length\<close> for each element in turn.
\<close>

fun accumulate_mean :: "nat \<Rightarrow> js_number \<Rightarrow> js_number list \<Rightarrow> js_number" where
  "accumulate_mean n acc [] = acc"
| "accumulate_mean n acc (v # vs) =
     accumulate_mean n (js_add acc (js_div v (Finite (of_nat n)))) vs"

section \<open>App.js: the application state and its handlers\<close>

text \<open>
  One entry of the \<^verbatim>\<open>Search\<close> list of the catalog; the application only stores
  and displays it.
\<close>

record movie_summary =
  summary_imdbID :: js_string
  summary_Title :: js_string
  summary_Year :: js_string
  summary_Poster :: js_string

text \<open>
  One \<^verbatim>\<open>fetch\<close> issued by \<^verbatim>\<open>fetchMovies\<close>: the URL it was called with, whether
  the \<^verbatim>\<open>AbortController\<close> whose signal it listens to has been aborted, and which
  \<^verbatim>\<open>await\<close> of \<^verbatim>\<open>fetchMovies\<close> is pending.
\<close>

datatype phase = AwaitFetch | AwaitJson | Settled

record attempt =
  url :: js_string
  aborted :: bool
  phase :: phase

text \<open>
  The state of \<^verbatim>\<open>App\<close> (\<open>query\<close>, \<open>selectedId\<close>, \<open>watched\<close>) and of \<^verbatim>\<open>useMovies\<close>
  (\<open>movies\<close>, \<open>isLoading\<close>, \<open>error\<close>), together with what the platform holds for the
  hook: every fetch issued so far (\<open>attempts\<close>, a fetch is named by its position), the
  cleanup function returned by the last run of the effect (\<open>cleanup\<close>, the position of
  the fetch its controller belongs to) and whether the component is mounted.
  \<open>movies\<close> is \<open>None\<close> when \<^verbatim>\<open>setMovies\<close> was given \<^verbatim>\<open>undefined\<close>; \<open>selectedId\<close> is
  \<open>None\<close> for \<^verbatim>\<open>null\<close>.
\<close>

record app =
  query :: js_string
  selectedId :: "js_string option"
  watched :: "watched_movie list"
  movies :: "movie_summary list option"
  isLoading :: bool
  error :: js_string
  attempts :: "attempt list"
  cleanup :: "nat option"
  mounted :: bool

definition init :: "watched_movie list \<Rightarrow> app" where
  "init stored =
     \<lparr> query = lit '''', selectedId = None, watched = stored, movies = Some [],
       isLoading = False, error = lit '''', attempts = [], cleanup = None, mounted = True \<rparr>"

text \<open>
  Modelled from the spec: \<^verbatim>\<open>useLocalStorageState.js\<close> is not among the sources.  Its
  setter "accepts either a literal replacement value or a pure function of the previous
  value"; \<^verbatim>\<open>App\<close> only passes functions.
\<close>

definition setWatched :: "(watched_movie list \<Rightarrow> watched_movie list) \<Rightarrow> app \<Rightarrow> app" where
  "setWatched f s = s\<lparr>watched := f (watched s)\<rparr>"

text \<open>\<^verbatim>\<open>setSelectedId(() => (id === selectedId ? null : id))\<close>\<close>

definition handleSelectMovie :: "js_string \<Rightarrow> app \<Rightarrow> app" where
  "handleSelectMovie id' s = s\<lparr>selectedId := (if Some id' = selectedId s then None else Some id')\<rparr>"

definition handleCloseMovie :: "app \<Rightarrow> app" where
  "handleCloseMovie s = s\<lparr>selectedId := None\<rparr>"

text \<open>\<^verbatim>\<open>setWatched((watched) => [...watched, movie])\<close>\<close>

definition handleAddWatched :: "watched_movie \<Rightarrow> app \<Rightarrow> app" where
  "handleAddWatched movie s = setWatched (\<lambda>watched. watched @ [movie]) s"

text \<open>\<^verbatim>\<open>setWatched((watched) => watched.filter((movie) => movie.imdbID !== id))\<close>\<close>

definition handleDeleteWatched :: "js_string \<Rightarrow> app \<Rightarrow> app" where
  "handleDeleteWatched id' s =
     setWatched (\<lambda>watched. filter (\<lambda>movie. imdbID movie \<noteq> id') watched) s"





section \<open>useMovies.js: the search controller\<close>

definition OMDB_KEY :: js_string where
  "OMDB_KEY = lit ''af2eaa9a''"

definition search_url :: "js_string \<Rightarrow> js_string" where
  "search_url q = lit ''https://www.omdbapi.com/?apikey='' @ OMDB_KEY @ lit ''&s='' @ q"

text \<open>What \<^verbatim>\<open>res.json()\<close> yields: the fields of the payload that \<^verbatim>\<open>fetchMovies\<close> reads.\<close>

record search_payload =
  Response :: "js_string option"
  Search :: "movie_summary list option"

text \<open>A thrown or rejected error value, with the two properties the \<^verbatim>\<open>catch\<close> block reads.\<close>

record js_error =
  name :: js_string
  message :: js_string

text \<open>
  How the two awaited promises settle: \<^verbatim>\<open>fetch\<close> rejects or resolves to a response, of
  which \<^verbatim>\<open>res.ok\<close> is read; \<^verbatim>\<open>res.json()\<close> rejects (the body is not JSON, or the
  signal was aborted while it was read) or resolves to the payload.  A payload that is
  \<^verbatim>\<open>null\<close> makes \<^verbatim>\<open>data.Response\<close> throw inside the \<^verbatim>\<open>try\<close> block, which is a
  rejection as far as \<^verbatim>\<open>fetchMovies\<close> goes.
\<close>

datatype fetch_outcome = FetchRejected js_error | FetchResolved bool

datatype json_outcome = JsonRejected js_error | JsonResolved search_payload

text \<open>\<^verbatim>\<open>new Error(msg)\<close>\<close>

definition Error :: "js_string \<Rightarrow> js_error" where
  "Error msg = \<lparr> name = lit ''Error'', message = msg \<rparr>"

text \<open>
  The rejection of a fetch whose signal was aborted: a \<^verbatim>\<open>DOMException\<close> named
  \<^verbatim>\<open>AbortError\<close>.
\<close>

definition abort_error :: js_error where
  "abort_error = \<lparr> name = lit ''AbortError'', message = lit ''signal is aborted without reason'' \<rparr>"

text \<open>\<^verbatim>\<open>controller.abort()\<close> for the controller of fetch \<open>k\<close>.\<close>

definition abort :: "nat \<Rightarrow> attempt list \<Rightarrow> attempt list" where
  "abort k as = (if k < length as then as[k := (as ! k)\<lparr>aborted := True\<rparr>] else as)"

definition set_phase :: "nat \<Rightarrow> phase \<Rightarrow> app \<Rightarrow> app" where
  "set_phase k p s =
     (if k < length (attempts s)
      then s\<lparr>attempts := (attempts s)[k := (attempts s ! k)\<lparr>phase := p\<rparr>]\<rparr> else s)"

text \<open>
  \<^verbatim>\<open>fetchMovies\<close> up to its first \<^verbatim>\<open>await\<close>: \<^verbatim>\<open>setIsLoading(true)\<close>,
  \<^verbatim>\<open>setError("")\<close>, and the call of \<^verbatim>\<open>fetch\<close>.
\<close>

definition fetchMovies_start :: "js_string \<Rightarrow> app \<Rightarrow> app" where
  "fetchMovies_start q s =
     s\<lparr>isLoading := True, error := lit '''',
       attempts := attempts s @ [\<lparr> url = search_url q, aborted = False, phase = AwaitFetch \<rparr>]\<rparr>"

text \<open>The \<^verbatim>\<open>catch\<close> and the \<^verbatim>\<open>finally\<close> block of \<^verbatim>\<open>fetchMovies\<close>.\<close>

definition fetchMovies_catch :: "js_error \<Rightarrow> app \<Rightarrow> app" where
  "fetchMovies_catch err s = (if name err \<noteq> lit ''AbortError'' then s\<lparr>error := message err\<rparr> else s)"

definition fetchMovies_finally :: "app \<Rightarrow> app" where
  "fetchMovies_finally s = s\<lparr>isLoading := False\<rparr>"

text \<open>\<^verbatim>\<open>fetchMovies\<close> resumed when \<^verbatim>\<open>await fetch(...)\<close> settles.\<close>

definition fetchMovies_after_fetch :: "nat \<Rightarrow> fetch_outcome \<Rightarrow> app \<Rightarrow> app" where
  "fetchMovies_after_fetch k out s =
     (case out of
        FetchRejected err \<Rightarrow> set_phase k Settled (fetchMovies_finally (fetchMovies_catch err s))
      | FetchResolved ok \<Rightarrow>
          if \<not> ok
          then set_phase k Settled (fetchMovies_finally
                 (fetchMovies_catch (Error (lit ''Something went wrong while fetching movies'')) s))
          else set_phase k AwaitJson s)"

text \<open>\<^verbatim>\<open>fetchMovies\<close> resumed when \<^verbatim>\<open>await res.json()\<close> settles.\<close>

definition fetchMovies_after_json :: "nat \<Rightarrow> json_outcome \<Rightarrow> app \<Rightarrow> app" where
  "fetchMovies_after_json k out s =
     (case out of
        JsonRejected err \<Rightarrow> set_phase k Settled (fetchMovies_finally (fetchMovies_catch err s))
      | JsonResolved data \<Rightarrow>
          if Response data = Some (lit ''False'')
          then set_phase k Settled (fetchMovies_finally
                 (fetchMovies_catch (Error (lit ''Movie not found'')) s))
          else set_phase k Settled (fetchMovies_finally
                 (s\<lparr>movies := Search data, error := lit ''''\<rparr>)))"

text \<open>
  The body of the effect, for the query and the callback of this render:
  \<^verbatim>\<open>callback?.()\<close>, the length guard, \<^verbatim>\<open>fetchMovies()\<close>.  The effect returns a cleanup
  function only when it passed the guard.
\<close>

definition useMovies_effect :: "js_string \<Rightarrow> (app \<Rightarrow> app) option \<Rightarrow> app \<Rightarrow> app" where
  "useMovies_effect q callback s =
     (let s1 = (case callback of None \<Rightarrow> s | Some f \<Rightarrow> f s) in
      if length q < 3 then s1\<lparr>movies := Some [], error := lit '''', cleanup := None\<rparr>
      else (fetchMovies_start q s1)\<lparr>cleanup := Some (length (attempts s1))\<rparr>)"

text \<open>The cleanup function of the previous run of the effect, if it returned one.\<close>

definition run_cleanup :: "app \<Rightarrow> app" where
  "run_cleanup s =
     (case cleanup s of None \<Rightarrow> s
      | Some k \<Rightarrow> s\<lparr>attempts := abort k (attempts s), cleanup := None\<rparr>)"

text \<open>
  What can happen to the mounted hook: the query changes (React runs the previous
  cleanup, then the effect with \<^verbatim>\<open>handleCloseMovie\<close> as callback; the first run, on
  mount, has no cleanup to run), the component unmounts (React runs the cleanup), or one
  of the awaited promises of fetch \<open>k\<close> settles.  A promise settles once, and a pending
  promise whose signal has been aborted rejects with \<open>abort_error\<close> whatever the network
  delivers.  An effect runs for one render, so a query change on an unmounted hook does
  nothing; the setters called by a promise that settles after the unmount are recorded
  in the state all the same, although React drops them.
\<close>

datatype event =
    QueryChange js_string
  | Unmount
  | FetchSettles nat fetch_outcome
  | JsonSettles nat json_outcome

definition step :: "app \<Rightarrow> event \<Rightarrow> app" where
  "step s e =
     (case e of
        QueryChange q \<Rightarrow>
          if mounted s
          then useMovies_effect q (Some handleCloseMovie) (run_cleanup (s\<lparr>query := q\<rparr>))
          else s
      | Unmount \<Rightarrow> if mounted s then (run_cleanup s)\<lparr>mounted := False\<rparr> else s
      | FetchSettles k out \<Rightarrow>
          if k < length (attempts s) \<and> phase (attempts s ! k) = AwaitFetch
          then fetchMovies_after_fetch k
                 (if aborted (attempts s ! k) then FetchRejected abort_error else out) s
          else s
      | JsonSettles k out \<Rightarrow>
          if k < length (attempts s) \<and> phase (attempts s ! k) = AwaitJson
          then fetchMovies_after_json k
                 (if aborted (attempts s ! k) then JsonRejected abort_error else out) s
          else s)"

definition run :: "app \<Rightarrow> event list \<Rightarrow> app" where
  "run s es = foldl step s es"

section \<open>App.js: committing a rating\<close>

subsection \<open>String to number conversion\<close>

















subsection \<open>String and array methods\<close>



subsection \<open>MovieDetails\<close>







section \<open>Runs of the search controller\<close>

text \<open>
  An event supersedes the fetches issued before it when it is a query change or the
  unmount; \<open>settles e k\<close> says that \<open>e\<close> is the settling of a promise of fetch \<open>k\<close>.
\<close>

definition supersedes :: "event \<Rightarrow> bool" where
  "supersedes e = (case e of QueryChange _ \<Rightarrow> True | Unmount \<Rightarrow> True | _ \<Rightarrow> False)"

definition settles :: "event \<Rightarrow> nat \<Rightarrow> bool" where
  "settles e k = (case e of FetchSettles j _ \<Rightarrow> j = k | JsonSettles j _ \<Rightarrow> j = k | _ \<Rightarrow> False)"



section \<open>Invariants of the search controller\<close>

text \<open>
  A fetch is dead when its signal is aborted or its last promise has settled.  In every
  reachable state each fetch but the one the registered cleanup function belongs to is
  dead, and an unmounted hook has no cleanup function registered.
\<close>

definition dead :: "nat \<Rightarrow> app \<Rightarrow> bool" where
  "dead k s \<longleftrightarrow> k < length (attempts s) \<and>
     (aborted (attempts s ! k) \<or> phase (attempts s ! k) = Settled)"

definition inv :: "app \<Rightarrow> bool" where
  "inv s \<longleftrightarrow> (\<forall>k < length (attempts s). cleanup s \<noteq> Some k \<longrightarrow> dead k s) \<and>
     (\<not> mounted s \<longrightarrow> cleanup s = None)"

text \<open>The fetches after the registered cleanup function has run.\<close>

definition cleaned :: "app \<Rightarrow> attempt list" where
  "cleaned s = (case cleanup s of None \<Rightarrow> attempts s | Some k \<Rightarrow> abort k (attempts s))"

text \<open>Every fetch was issued for a query of at least three code units.\<close>

definition issued_ok :: "app \<Rightarrow> bool" where
  "issued_ok s \<longleftrightarrow> (\<forall>u \<in> set (map url (attempts s)). \<exists>q. u = search_url q \<and> 3 \<le> length q)"


section \<open>Sample data\<close>

text \<open>
  The entry of the specification's example scenario (Alien, 117 minutes, IMDb rating 8.5,
  user rating 9) under a given identifier, and an application state with a detail view
  open on \<^verbatim>\<open>tt1\<close>.
\<close>

definition sample_entry :: "string \<Rightarrow> watched_movie" where
  "sample_entry i =
     \<lparr> imdbID = lit i, title = Some (lit ''Alien''), year = Some (lit ''1979''),
       poster = Some (lit ''p.jpg''), runtime = Finite 117, imdbRating = Finite (17 / 2),
       userRating = Finite 9, countRatingDecision = 1 \<rparr>"

definition sample_app :: "watched_movie list \<Rightarrow> app" where
  "sample_app w = (init w)\<lparr>selectedId := Some (lit ''tt1'')\<rparr>"


text \<open>
  The search result of the example scenario, the payload that carries it and the payload
  of a search without a match.
\<close>

definition sample_movie :: movie_summary where
  "sample_movie =
     \<lparr> summary_imdbID = lit ''tt1'', summary_Title = lit ''Alien'',
       summary_Year = lit ''1979'', summary_Poster = lit ''p.jpg'' \<rparr>"

definition sample_found :: search_payload where
  "sample_found = \<lparr> Response = Some (lit ''True''), Search = Some [sample_movie] \<rparr>"

definition sample_not_found :: search_payload where
  "sample_not_found = \<lparr> Response = Some (lit ''False''), Search = None \<rparr>"

section \<open>Properties of the watched collection\<close>

subsection \<open>The aggregates\<close>

lemma reduce_from_accumulate:
  "reduce_from (\<lambda>acc cur i arr. js_add acc (js_div cur (Finite (of_nat (length arr))))) arr i acc vs
   = accumulate_mean (length arr) acc vs"
  by (induction vs arbitrary: i acc) simp_all

lemma average_accumulate: "average vs = accumulate_mean (length vs) (Finite 0) vs"
  by (simp add: average_def reduce_def reduce_from_accumulate)

text \<open>
  C5: for the empty watched collection each of the three aggregates of
  \<^verbatim>\<open>WatchedSummary\<close> is exactly 0, not NaN; and for every collection the aggregate is
  the accumulation of \<open>value / length\<close> over the elements in order, starting from 0.
\<close>

theorem WatchedSummary_empty_zero:
  "avgImdbRating (WatchedSummary []) = Finite 0 \<and>
   avgUserRating (WatchedSummary []) = Finite 0 \<and>
   avgRuntime (WatchedSummary []) = Finite 0 \<and>
   avgImdbRating (WatchedSummary []) \<noteq> NaN \<and>
   avgUserRating (WatchedSummary []) \<noteq> NaN \<and>
   avgRuntime (WatchedSummary []) \<noteq> NaN \<and>
   avgImdbRating (WatchedSummary ws) =
     accumulate_mean (length ws) (Finite 0) (map imdbRating ws) \<and>
   avgUserRating (WatchedSummary ws) =
     accumulate_mean (length ws) (Finite 0) (map userRating ws) \<and>
   avgRuntime (WatchedSummary ws) =
     accumulate_mean (length ws) (Finite 0) (map runtime ws)"
  by (simp add: WatchedSummary_def average_accumulate)

text \<open>On finite values the accumulation is the arithmetic mean.\<close>

lemma accumulate_mean_finite:
  "n \<noteq> 0 \<Longrightarrow> accumulate_mean n (Finite a) (map Finite qs) = Finite (a + sum_list qs / of_nat n)"
  by (induction qs arbitrary: a) (simp_all add: add_divide_distrib)

lemma average_finite:
  "qs \<noteq> [] \<Longrightarrow> average (map Finite qs) = Finite (sum_list qs / of_nat (length qs))"
  using accumulate_mean_finite [of "length qs" 0 qs] by (simp add: average_accumulate)

subsection \<open>Deleting\<close>

lemma watched_handleDeleteWatched:
  "watched (handleDeleteWatched i s) = filter (\<lambda>movie. imdbID movie \<noteq> i) (watched s)"
  by (simp add: handleDeleteWatched_def setWatched_def)

lemma filter_unique_entry:
  "\<forall>m \<in> set xs \<union> set ys. imdbID m \<noteq> i \<Longrightarrow> imdbID e = i \<Longrightarrow>
   filter (\<lambda>movie. imdbID movie \<noteq> i) (xs @ e # ys) = xs @ ys"
  by (simp add: filter_id_conv)

lemma count_list_filter_other:
  "P m \<Longrightarrow> count_list (filter P xs) m = count_list xs m"
  by (induction xs) auto

text \<open>
  C6: deleting an identifier that is present removes the entries with that identifier
  and nothing else: no remaining entry has it, the result is a subsequence of the
  original (the other entries are unchanged and in their original order), every entry
  with another identifier is kept as often as it occurred, and the collection gets
  shorter.  When one entry \<open>e\<close> has the identifier, the collection \<open>xs @ e # ys\<close> becomes
  \<open>xs @ ys\<close>.  Nothing but the watched collection changes.
\<close>

theorem handleDeleteWatched_removes_exactly:
  assumes "i \<in> imdbID ` set (watched s)"
  shows "(\<forall>m \<in> set (watched (handleDeleteWatched i s)). imdbID m \<noteq> i) \<and>
         subseq (watched (handleDeleteWatched i s)) (watched s) \<and>
         (\<forall>m. imdbID m \<noteq> i \<longrightarrow>
            count_list (watched (handleDeleteWatched i s)) m = count_list (watched s) m) \<and>
         (\<forall>xs e ys. watched s = xs @ e # ys \<and> imdbID e = i \<and>
            (\<forall>m \<in> set xs \<union> set ys. imdbID m \<noteq> i) \<longrightarrow>
            watched (handleDeleteWatched i s) = xs @ ys) \<and>
         length (watched (handleDeleteWatched i s)) < length (watched s) \<and>
         handleDeleteWatched i s = s\<lparr>watched := watched (handleDeleteWatched i s)\<rparr>"
proof -
  let ?r = "watched (handleDeleteWatched i s)"
  have r: "?r = filter (\<lambda>movie. imdbID movie \<noteq> i) (watched s)"
    by (rule watched_handleDeleteWatched)
  have gone: "\<forall>m \<in> set ?r. imdbID m \<noteq> i"
    by (simp add: r)
  have order: "subseq ?r (watched s)"
    by (simp add: r)
  have kept: "\<forall>m. imdbID m \<noteq> i \<longrightarrow> count_list ?r m = count_list (watched s) m"
    by (simp add: r count_list_filter_other)
  have unique: "\<forall>xs e ys. watched s = xs @ e # ys \<and> imdbID e = i \<and>
      (\<forall>m \<in> set xs \<union> set ys. imdbID m \<noteq> i) \<longrightarrow> ?r = xs @ ys"
    using filter_unique_entry by (simp add: r)
  from assms obtain e where "e \<in> set (watched s)" and "imdbID e = i"
    by auto
  then have shorter: "length ?r < length (watched s)"
    unfolding r by (intro length_filter_less [of e]) simp_all
  have rest: "handleDeleteWatched i s = s\<lparr>watched := ?r\<rparr>"
    by (simp add: handleDeleteWatched_def setWatched_def)
  from gone order kept unique shorter rest show ?thesis
    by blast
qed

text \<open>Deleting \<^verbatim>\<open>tt2\<close> from the collection \<^verbatim>\<open>tt1, tt2, tt3\<close> leaves \<^verbatim>\<open>tt1, tt3\<close>.\<close>

theorem handleDeleteWatched_removes_exactly_witness:
  "lit ''tt2'' \<in> imdbID ` set (watched
      (sample_app [sample_entry ''tt1'', sample_entry ''tt2'', sample_entry ''tt3''])) \<and>
   watched (handleDeleteWatched (lit ''tt2'')
      (sample_app [sample_entry ''tt1'', sample_entry ''tt2'', sample_entry ''tt3'']))
     = [sample_entry ''tt1'', sample_entry ''tt3'']"
proof -
  let ?s = "sample_app [sample_entry ''tt1'', sample_entry ''tt2'', sample_entry ''tt3'']"
  have h: "lit ''tt2'' \<in> imdbID ` set (watched ?s)"
    by (simp add: sample_app_def init_def sample_entry_def)
  have w: "watched ?s = [sample_entry ''tt1''] @ sample_entry ''tt2'' # [sample_entry ''tt3'']"
    by (simp add: sample_app_def init_def)
  have u: "\<forall>m \<in> set [sample_entry ''tt1''] \<union> set [sample_entry ''tt3'']. imdbID m \<noteq> lit ''tt2''"
    by (simp add: sample_entry_def lit_def)
  have e: "imdbID (sample_entry ''tt2'') = lit ''tt2''"
    by (simp add: sample_entry_def)
  from handleDeleteWatched_removes_exactly [OF h] w u e
  have "watched (handleDeleteWatched (lit ''tt2'') ?s) = [sample_entry ''tt1''] @ [sample_entry ''tt3'']"
    by blast
  with h show ?thesis by simp
qed

text \<open>
  C10: deleting an identifier that no entry of the collection has returns the state as
  it was.
\<close>

theorem handleDeleteWatched_absent_identity:
  "i \<notin> imdbID ` set (watched s) \<Longrightarrow> handleDeleteWatched i s = s"
proof -
  assume "i \<notin> imdbID ` set (watched s)"
  then have "filter (\<lambda>movie. imdbID movie \<noteq> i) (watched s) = watched s"
    by (auto simp: filter_id_conv)
  then show ?thesis
    by (simp add: handleDeleteWatched_def setWatched_def)
qed

theorem handleDeleteWatched_absent_identity_witness:
  "lit ''tt9'' \<notin> imdbID ` set (watched (sample_app [sample_entry ''tt1'', sample_entry ''tt2''])) \<and>
   handleDeleteWatched (lit ''tt9'') (sample_app [sample_entry ''tt1'', sample_entry ''tt2''])
     = sample_app [sample_entry ''tt1'', sample_entry ''tt2'']"
proof -
  let ?s = "sample_app [sample_entry ''tt1'', sample_entry ''tt2'']"
  have h: "lit ''tt9'' \<notin> imdbID ` set (watched ?s)"
    by (simp add: sample_app_def init_def sample_entry_def lit_def)
  from h handleDeleteWatched_absent_identity [OF h] show ?thesis by simp
qed

subsection \<open>Adding\<close>

text \<open>
  C7: adding appends the entry at the end whatever the collection holds: the collection
  grows by one, the old entries stay in front, the new entry is last, and the number
  of entries with the new entry's identifier grows by one, so an entry whose identifier
  is already present is kept beside the new one.
\<close>

theorem handleAddWatched_appends:
  "watched (handleAddWatched movie s) = watched s @ [movie] \<and>
   length (watched (handleAddWatched movie s)) = Suc (length (watched s)) \<and>
   take (length (watched s)) (watched (handleAddWatched movie s)) = watched s \<and>
   last (watched (handleAddWatched movie s)) = movie \<and>
   length (filter (\<lambda>e. imdbID e = imdbID movie) (watched (handleAddWatched movie s)))
     = Suc (length (filter (\<lambda>e. imdbID e = imdbID movie) (watched s))) \<and>
   handleAddWatched movie s = s\<lparr>watched := watched s @ [movie]\<rparr>"
  by (simp add: handleAddWatched_def setWatched_def)

section \<open>Properties of the selection\<close>

text \<open>
  C9: selecting the identifier that is currently selected sets the selection to null;
  selecting any other identifier sets the selection to that identifier.  Nothing but
  the selection changes.
\<close>

theorem handleSelectMovie_toggles:
  "(selectedId s = Some i \<longrightarrow> selectedId (handleSelectMovie i s) = None) \<and>
   (selectedId s \<noteq> Some i \<longrightarrow> selectedId (handleSelectMovie i s) = Some i) \<and>
   handleSelectMovie i s = s\<lparr>selectedId := selectedId (handleSelectMovie i s)\<rparr>"
  by (auto simp: handleSelectMovie_def)

theorem handleSelectMovie_toggles_witness:
  "selectedId (sample_app []) = Some (lit ''tt1'') \<and>
   selectedId (handleSelectMovie (lit ''tt1'') (sample_app [])) = None \<and>
   selectedId (sample_app []) \<noteq> Some (lit ''tt2'') \<and>
   selectedId (handleSelectMovie (lit ''tt2'') (sample_app [])) = Some (lit ''tt2'')"
proof -
  have same: "selectedId (sample_app []) = Some (lit ''tt1'')"
    by (simp add: sample_app_def)
  have other: "selectedId (sample_app []) \<noteq> Some (lit ''tt2'')"
    by (simp add: sample_app_def lit_def)
  from same other
    handleSelectMovie_toggles [of "sample_app []" "lit ''tt1''"]
    handleSelectMovie_toggles [of "sample_app []" "lit ''tt2''"]
  show ?thesis by blast
qed

section \<open>Properties of committing a rating\<close>

subsection \<open>Decimal numerals and their conversion\<close>























subsection \<open>The entry that is added\<close>



section \<open>Properties of the search controller\<close>

subsection \<open>Runs and the parts of a step\<close>

lemma run_Nil [simp]: "run s [] = s"
  by (simp add: run_def)

lemma run_Cons [simp]: "run s (e # es) = run (step s e) es"
  by (simp add: run_def)

lemma run_append: "run s (es @ fs) = run (run s es) fs"
  by (simp add: run_def)

lemma length_lit [simp]: "length (lit s) = length s"
  by (simp add: lit_def)

lemma lit_True_False [simp]: "lit ''True'' \<noteq> lit ''False''"
  by (simp add: lit_def)

lemma catch_Error: "fetchMovies_catch (Error m) s = s\<lparr>error := m\<rparr>"
  by (simp add: fetchMovies_catch_def Error_def lit_def)

lemma catch_abort: "fetchMovies_catch abort_error s = s"
  by (simp add: fetchMovies_catch_def abort_error_def)

lemmas eval_defs =
  step_def useMovies_effect_def run_cleanup_def handleCloseMovie_def fetchMovies_start_def
  fetchMovies_after_fetch_def fetchMovies_after_json_def catch_Error catch_abort
  fetchMovies_finally_def set_phase_def abort_def init_def sample_found_def
  sample_not_found_def

lemma set_phase_fields [simp]:
  "movies (set_phase k p s) = movies s"
  "error (set_phase k p s) = error s"
  "isLoading (set_phase k p s) = isLoading s"
  "cleanup (set_phase k p s) = cleanup s"
  "mounted (set_phase k p s) = mounted s"
  "length (attempts (set_phase k p s)) = length (attempts s)"
  by (simp_all add: set_phase_def)

lemma set_phase_nth:
  "j < length (attempts s) \<Longrightarrow>
   attempts (set_phase k p s) ! j = (if j = k then (attempts s ! j)\<lparr>phase := p\<rparr> else attempts s ! j)"
  by (simp add: set_phase_def nth_list_update)

lemma finally_fields [simp]:
  "movies (fetchMovies_finally s) = movies s"
  "error (fetchMovies_finally s) = error s"
  "isLoading (fetchMovies_finally s) = False"
  "cleanup (fetchMovies_finally s) = cleanup s"
  "mounted (fetchMovies_finally s) = mounted s"
  "attempts (fetchMovies_finally s) = attempts s"
  by (simp_all add: fetchMovies_finally_def)

lemma catch_fields [simp]:
  "movies (fetchMovies_catch err s) = movies s"
  "isLoading (fetchMovies_catch err s) = isLoading s"
  "cleanup (fetchMovies_catch err s) = cleanup s"
  "mounted (fetchMovies_catch err s) = mounted s"
  "attempts (fetchMovies_catch err s) = attempts s"
  by (simp_all add: fetchMovies_catch_def)

subsection \<open>Superseded fetches\<close>

lemma aborted_settle_noop:
  assumes "k < length (attempts s)" "aborted (attempts s ! k)" "settles ev k"
  shows "movies (step s ev) = movies s \<and> error (step s ev) = error s"
  using assms
  by (cases ev)
     (simp_all add: settles_def step_def fetchMovies_after_fetch_def fetchMovies_after_json_def
        catch_abort)

lemma settled_settle_noop:
  assumes "k < length (attempts s)" "phase (attempts s ! k) = Settled" "settles ev k"
  shows "step s ev = s"
  using assms by (cases ev) (simp_all add: settles_def step_def)

lemma dead_noop: "dead k s \<Longrightarrow> settles ev k \<Longrightarrow> movies (step s ev) = movies s \<and> error (step s ev) = error s"
  using aborted_settle_noop settled_settle_noop by (fastforce simp: dead_def)

lemma attempts_after_fetch:
  "attempts (fetchMovies_after_fetch j out s) =
     attempts (set_phase j (case out of FetchResolved True \<Rightarrow> AwaitJson | _ \<Rightarrow> Settled) s)"
  by (simp add: fetchMovies_after_fetch_def set_phase_def split: fetch_outcome.splits bool.splits)

lemma attempts_after_json:
  "attempts (fetchMovies_after_json j out s) = attempts (set_phase j Settled s)"
  by (simp add: fetchMovies_after_json_def set_phase_def Let_def split: json_outcome.splits)

lemma after_fetch_fields [simp]:
  "cleanup (fetchMovies_after_fetch j out s) = cleanup s"
  "mounted (fetchMovies_after_fetch j out s) = mounted s"
  "cleanup (fetchMovies_after_json j out' s) = cleanup s"
  "mounted (fetchMovies_after_json j out' s) = mounted s"
  by (simp_all add: fetchMovies_after_fetch_def fetchMovies_after_json_def
      split: fetch_outcome.splits json_outcome.splits)

lemma set_phase_keeps_aborted:
  "j < length (attempts s) \<Longrightarrow> aborted (attempts (set_phase k p s) ! j) = aborted (attempts s ! j)"
  by (simp add: set_phase_nth)

lemma set_phase_keeps_Settled:
  "j < length (attempts s) \<Longrightarrow> phase (attempts s ! j) = Settled \<Longrightarrow> k \<noteq> j \<or> p = Settled \<Longrightarrow>
   phase (attempts (set_phase k p s) ! j) = Settled"
  by (auto simp add: set_phase_nth)

lemma abort_length [simp]: "length (abort k as) = length as"
  by (simp add: abort_def)

lemma abort_nth:
  "j < length as \<Longrightarrow> abort k as ! j = (if j = k then (as ! j)\<lparr>aborted := True\<rparr> else as ! j)"
  by (simp add: abort_def nth_list_update)

lemma settle_length:
  "\<not> supersedes e \<Longrightarrow> length (attempts (step s e)) = length (attempts s)"
  by (cases e) (simp_all add: supersedes_def step_def attempts_after_fetch attempts_after_json)

lemma dead_settle:
  assumes "dead k s" "\<not> supersedes e"
  shows "dead k (step s e)"
proof (cases e)
  case (FetchSettles j out)
  with assms(1) show ?thesis
    by (auto simp: dead_def step_def attempts_after_fetch set_phase_nth)
next
  case (JsonSettles j out)
  with assms(1) show ?thesis
    by (auto simp: dead_def step_def attempts_after_json set_phase_nth)
qed (use assms in \<open>simp_all add: supersedes_def\<close>)

lemma cleaned_length [simp]: "length (cleaned s) = length (attempts s)"
  by (simp add: cleaned_def split: option.splits)

lemma cleaned_nth:
  "j < length (attempts s) \<Longrightarrow>
   cleaned s ! j = (if cleanup s = Some j then (attempts s ! j)\<lparr>aborted := True\<rparr> else attempts s ! j)"
  by (auto simp: cleaned_def abort_nth split: option.splits)

lemma step_QueryChange:
  "mounted s \<Longrightarrow> step s (QueryChange q) =
     (if length q < 3
      then s\<lparr>query := q, selectedId := None, movies := Some [], error := lit '''',
             attempts := cleaned s, cleanup := None\<rparr>
      else s\<lparr>query := q, selectedId := None, isLoading := True, error := lit '''',
             attempts := cleaned s @ [\<lparr> url = search_url q, aborted = False, phase = AwaitFetch \<rparr>],
             cleanup := Some (length (attempts s))\<rparr>)"
  by (simp add: step_def useMovies_effect_def run_cleanup_def handleCloseMovie_def
      fetchMovies_start_def cleaned_def split: option.splits)

lemma step_Unmount:
  "mounted s \<Longrightarrow> step s Unmount = s\<lparr>attempts := cleaned s, cleanup := None, mounted := False\<rparr>"
  by (simp add: step_def run_cleanup_def cleaned_def split: option.splits)

lemma step_unmounted: "\<not> mounted s \<Longrightarrow> supersedes e \<Longrightarrow> step s e = s"
  by (cases e) (simp_all add: step_def supersedes_def)

lemma dead_supersede:
  assumes "dead k s" "supersedes e"
  shows "dead k (step s e)"
proof (cases "mounted s")
  case False
  with assms show ?thesis by (simp add: step_unmounted)
next
  case True
  with assms show ?thesis
    by (cases e)
       (auto simp: dead_def step_QueryChange step_Unmount cleaned_nth nth_append supersedes_def)
qed

lemma dead_step: "dead k s \<Longrightarrow> dead k (step s e)"
  using dead_supersede dead_settle by blast

lemma dead_run: "dead k s \<Longrightarrow> dead k (run s es)"
  by (induction es arbitrary: s) (simp_all add: dead_step)

lemma inv_init: "inv (init w)"
  by (simp add: inv_def init_def)

lemma inv_settle:
  assumes "inv s" "\<not> supersedes e"
  shows "inv (step s e)"
proof -
  have same: "cleanup (step s e) = cleanup s" "mounted (step s e) = mounted s"
    "length (attempts (step s e)) = length (attempts s)"
    using assms(2)
    by (cases e; simp add: step_def supersedes_def attempts_after_fetch attempts_after_json)+
  show ?thesis
    unfolding inv_def same
    using assms dead_settle by (auto simp: inv_def)
qed

lemma supersede_kills:
  assumes "inv s" "supersedes e" "k < length (attempts s)"
  shows "dead k (step s e)"
proof (cases "mounted s")
  case False
  with assms have "cleanup s = None" by (simp add: inv_def)
  with assms have "dead k s" by (simp add: inv_def)
  with assms show ?thesis by (simp add: dead_supersede)
next
  case True
  show ?thesis
  proof (cases "cleanup s = Some k")
    case c: True
    with True assms(2,3) show ?thesis
      by (cases e)
         (auto simp: dead_def step_QueryChange step_Unmount cleaned_nth nth_append supersedes_def)
  next
    case False
    with assms have "dead k s" by (simp add: inv_def)
    with assms show ?thesis by (simp add: dead_supersede)
  qed
qed

lemma inv_supersede:
  assumes "inv s" "supersedes e"
  shows "inv (step s e)"
proof (cases "mounted s")
  case False
  with assms show ?thesis by (simp add: step_unmounted)
next
  case True
  have old: "\<forall>k < length (attempts s). dead k (step s e)"
    using assms supersede_kills by blast
  from True assms(2) have new:
    "length (attempts (step s e)) = length (attempts s) \<and> cleanup (step s e) = None \<or>
     length (attempts (step s e)) = Suc (length (attempts s)) \<and>
       cleanup (step s e) = Some (length (attempts s)) \<and> mounted (step s e)"
    by (cases e) (auto simp: step_QueryChange step_Unmount supersedes_def)
  from old new show ?thesis
    by (auto simp: inv_def less_Suc_eq)
qed

lemma inv_step: "inv s \<Longrightarrow> inv (step s e)"
  using inv_supersede inv_settle by blast

lemma inv_run: "inv s \<Longrightarrow> inv (run s es)"
  by (induction es arbitrary: s) (simp_all add: inv_step)

text \<open>
  C1: take any run of the hook from its initial state, any query change or unmount \<open>e\<close>
  in it, and any fetch \<open>k\<close> issued before \<open>e\<close>.  Whenever a promise of that fetch
  settles after \<open>e\<close>, whatever the network delivers and whatever happened in between,
  the movie list and the error are what they were before.  The cancellation outcome
  itself (the rejection with \<open>abort_error\<close>) leaves both alone at either \<^verbatim>\<open>await\<close>, in
  any state.
\<close>

theorem superseded_fetch_is_noop:
  assumes "supersedes e" and "k < length (attempts (run (init w) es1))" and "settles ev k"
  shows "movies (step (run (init w) (es1 @ e # es2)) ev) = movies (run (init w) (es1 @ e # es2)) \<and>
         error (step (run (init w) (es1 @ e # es2)) ev) = error (run (init w) (es1 @ e # es2)) \<and>
         movies (fetchMovies_after_fetch j (FetchRejected abort_error) s) = movies s \<and>
         error (fetchMovies_after_fetch j (FetchRejected abort_error) s) = error s \<and>
         movies (fetchMovies_after_json j (JsonRejected abort_error) s) = movies s \<and>
         error (fetchMovies_after_json j (JsonRejected abort_error) s) = error s"
proof -
  have cancelled:
    "movies (fetchMovies_after_fetch j (FetchRejected abort_error) s) = movies s \<and>
     error (fetchMovies_after_fetch j (FetchRejected abort_error) s) = error s \<and>
     movies (fetchMovies_after_json j (JsonRejected abort_error) s) = movies s \<and>
     error (fetchMovies_after_json j (JsonRejected abort_error) s) = error s"
    by (simp add: fetchMovies_after_fetch_def fetchMovies_after_json_def catch_abort)
  let ?t = "run (init w) es1"
  have "inv ?t" by (simp add: inv_init inv_run)
  with assms have "dead k (step ?t e)" by (simp add: supersede_kills)
  then have "dead k (run (step ?t e) es2)" by (rule dead_run)
  then have "dead k (run (init w) (es1 @ e # es2))" by (simp add: run_append)
  from this assms(3)
  have "movies (step (run (init w) (es1 @ e # es2)) ev) = movies (run (init w) (es1 @ e # es2)) \<and>
      error (step (run (init w) (es1 @ e # es2)) ev) = error (run (init w) (es1 @ e # es2))"
    by (rule dead_noop)
  with cancelled show ?thesis by (simp only:)
qed

text \<open>
  The search for \<^verbatim>\<open>ali\<close> has succeeded, \<^verbatim>\<open>alie\<close> is in flight when the query becomes
  \<^verbatim>\<open>alien\<close>; the network then answers the fetch for \<^verbatim>\<open>alie\<close> with a failure: the
  list still shows the result for \<^verbatim>\<open>ali\<close> and there is no error.
\<close>

theorem superseded_fetch_is_noop_witness:
  "supersedes (QueryChange (lit ''alien'')) \<and>
   1 < length (attempts (run (init [])
     [QueryChange (lit ''ali''), FetchSettles 0 (FetchResolved True),
      JsonSettles 0 (JsonResolved sample_found), QueryChange (lit ''alie'')])) \<and>
   settles (FetchSettles 1 (FetchResolved False)) 1 \<and>
   movies (step (run (init [])
     ([QueryChange (lit ''ali''), FetchSettles 0 (FetchResolved True),
       JsonSettles 0 (JsonResolved sample_found), QueryChange (lit ''alie'')] @
      QueryChange (lit ''alien'') # [])) (FetchSettles 1 (FetchResolved False)))
     = Some [sample_movie] \<and>
   error (step (run (init [])
     ([QueryChange (lit ''ali''), FetchSettles 0 (FetchResolved True),
       JsonSettles 0 (JsonResolved sample_found), QueryChange (lit ''alie'')] @
      QueryChange (lit ''alien'') # [])) (FetchSettles 1 (FetchResolved False)))
     = lit ''''"
proof -
  let ?es1 = "[QueryChange (lit ''ali''), FetchSettles 0 (FetchResolved True),
      JsonSettles 0 (JsonResolved sample_found), QueryChange (lit ''alie'')]"
  let ?t = "run (init []) (?es1 @ QueryChange (lit ''alien'') # [])"
  let ?ev = "FetchSettles 1 (FetchResolved False)"
  have h1: "supersedes (QueryChange (lit ''alien''))"
    by (simp add: supersedes_def)
  have h2: "1 < length (attempts (run (init []) ?es1))"
    by (simp add: eval_defs)
  have h3: "settles ?ev 1"
    by (simp add: settles_def)
  have before: "movies ?t = Some [sample_movie] \<and> error ?t = lit ''''"
    by (simp add: eval_defs)
  from superseded_fetch_is_noop [OF h1 h2 h3, of "[]"] before
  have "movies (step ?t ?ev) = Some [sample_movie] \<and> error (step ?t ?ev) = lit ''''"
    by simp
  with h1 h2 h3 show ?thesis by blast
qed

subsection \<open>The length guard\<close>

lemma map_field_update:
  "f y = f (as ! k) \<Longrightarrow> map f (as[k := y]) = map f as"
  by (cases "k < length as") (simp_all add: map_update list_update_same_conv list_update_beyond)

lemma map_url_update:
  "map url (as[k := (as ! k)\<lparr>phase := p\<rparr>]) = map url as"
  "map url (as[k := (as ! k)\<lparr>aborted := b\<rparr>]) = map url as"
  by (simp_all add: map_field_update)

lemma map_phase_update:
  "map phase (as[k := (as ! k)\<lparr>aborted := b\<rparr>]) = map phase as"
  by (simp add: map_field_update)

lemma map_url_cleaned [simp]: "map url (cleaned s) = map url (attempts s)"
  by (simp add: cleaned_def abort_def map_url_update split: option.splits)

lemma map_phase_cleaned [simp]: "map phase (cleaned s) = map phase (attempts s)"
  by (simp add: cleaned_def abort_def map_phase_update split: option.splits)

lemma map_url_set_phase [simp]: "map url (attempts (set_phase k p s)) = map url (attempts s)"
  by (simp add: set_phase_def map_url_update)

lemma urls_step:
  "map url (attempts (step s e)) = map url (attempts s) \<or>
   (\<exists>q. 3 \<le> length q \<and> map url (attempts (step s e)) = map url (attempts s) @ [search_url q])"
proof (cases e)
  case (QueryChange q)
  show ?thesis
  proof (cases "mounted s")
    case True
    then show ?thesis
      by (cases "length q < 3") (auto simp: QueryChange step_QueryChange not_less intro: exI [of _ q])
  next
    case False
    then show ?thesis by (simp add: QueryChange step_def)
  qed
next
  case Unmount
  show ?thesis
  proof (cases "mounted s")
    case True
    then show ?thesis by (simp add: Unmount step_Unmount)
  next
    case False
    then show ?thesis by (simp add: Unmount step_def)
  qed
next
  case (FetchSettles j out)
  then show ?thesis
    by (simp add: step_def attempts_after_fetch)
next
  case (JsonSettles j out)
  then show ?thesis
    by (simp add: step_def attempts_after_json)
qed

lemma issued_ok_step:
  assumes "issued_ok s"
  shows "issued_ok (step s e)"
proof -
  let ?U = "map url (attempts (step s e))"
  from urls_step [of s e] consider "?U = map url (attempts s)"
    | q where "3 \<le> length q" "?U = map url (attempts s) @ [search_url q]"
    by blast
  then show ?thesis
  proof cases
    case 1
    with assms show ?thesis
      unfolding issued_ok_def by (simp only:)
  next
    case 2
    from assms have "\<forall>u \<in> set (map url (attempts s) @ [search_url q]).
        \<exists>q. u = search_url q \<and> 3 \<le> length q"
      unfolding issued_ok_def using 2(1) by auto
    then show ?thesis
      unfolding issued_ok_def 2(2) .
  qed
qed

lemma issued_ok_run: "issued_ok s \<Longrightarrow> issued_ok (run s es)"
  by (induction es arbitrary: s) (simp_all add: issued_ok_step)

lemma settle_urls:
  "\<not> supersedes e \<Longrightarrow> map url (attempts (step s e)) = map url (attempts s)"
  by (cases e) (simp_all add: supersedes_def step_def attempts_after_fetch attempts_after_json)

lemma all_dead_settle:
  assumes "\<forall>k < length (attempts s). dead k s" "\<not> supersedes e"
  shows "movies (step s e) = movies s \<and> error (step s e) = error s \<and>
         (\<forall>k < length (attempts (step s e)). dead k (step s e))"
proof -
  have kept: "\<forall>k < length (attempts (step s e)). dead k (step s e)"
    using assms by (simp add: settle_length dead_settle)
  have same: "movies (step s e) = movies s \<and> error (step s e) = error s"
  proof (cases "\<exists>k < length (attempts s). settles e k")
    case True
    then obtain k where "k < length (attempts s)" "settles e k" by blast
    with assms(1) have "dead k s" "settles e k" by simp_all
    then show ?thesis by (rule dead_noop)
  next
    case False
    with assms(2) have "step s e = s"
      by (cases e) (auto simp: supersedes_def settles_def step_def)
    then show ?thesis by simp
  qed
  from kept same show ?thesis by blast
qed

lemma all_dead_run:
  assumes "\<forall>k < length (attempts s). dead k s" "\<forall>e \<in> set es. \<not> supersedes e"
  shows "movies (run s es) = movies s \<and> error (run s es) = error s \<and>
         map url (attempts (run s es)) = map url (attempts s)"
  using assms
proof (induction es arbitrary: s)
  case Nil
  then show ?case by simp
next
  case (Cons e es)
  then have e: "\<not> supersedes e" and es: "\<forall>e \<in> set es. \<not> supersedes e" by simp_all
  from all_dead_settle [OF Cons.prems(1) e] Cons.IH [of "step s e"] es settle_urls [OF e, of s]
  show ?case by simp
qed

lemma short_query_quiet:
  assumes "length q < 3" "mounted (run (init w) es0)" "\<forall>e \<in> set es. \<not> supersedes e"
  shows "movies (run (step (run (init w) es0) (QueryChange q)) es) = Some [] \<and>
         error (run (step (run (init w) es0) (QueryChange q)) es) = lit '''' \<and>
         map url (attempts (run (step (run (init w) es0) (QueryChange q)) es))
           = map url (attempts (run (init w) es0))"
proof -
  let ?s = "run (init w) es0"
  let ?t = "step ?s (QueryChange q)"
  have "inv ?s" by (simp add: inv_init inv_run)
  then have old: "\<forall>k < length (attempts ?s). dead k ?t"
    by (simp add: supersede_kills supersedes_def)
  from assms(1,2) have t: "movies ?t = Some []" "error ?t = lit ''''"
    "map url (attempts ?t) = map url (attempts ?s)" "length (attempts ?t) = length (attempts ?s)"
    by (simp_all add: step_QueryChange)
  from old t(4) have "\<forall>k < length (attempts ?t). dead k ?t" by simp
  from all_dead_run [OF this assms(3)] t show ?thesis by simp
qed

text \<open>
  C2: whatever the state of the mounted hook, a change to a query of fewer than three
  code units leaves the movie list empty and the error empty, and issues no fetch: the
  fetches are the ones there were, each at the \<^verbatim>\<open>await\<close> it was at.  In a run from the
  initial state the list and the error then stay empty, and no fetch is added, whatever
  promises settle until the next query change or the unmount.  In every run from the
  initial state, every fetch that was issued is for a query of at least three code
  units.
\<close>

theorem short_query_guard:
  assumes "length q < 3" and "mounted s"
  shows "movies (step s (QueryChange q)) = Some [] \<and>
         error (step s (QueryChange q)) = lit '''' \<and>
         map url (attempts (step s (QueryChange q))) = map url (attempts s) \<and>
         map phase (attempts (step s (QueryChange q))) = map phase (attempts s) \<and>
         (s = run (init w) pre \<and> (\<forall>e \<in> set post. \<not> supersedes e) \<longrightarrow>
            movies (run (step s (QueryChange q)) post) = Some [] \<and>
            error (run (step s (QueryChange q)) post) = lit '''' \<and>
            map url (attempts (run (step s (QueryChange q)) post)) = map url (attempts s)) \<and>
         (\<forall>a \<in> set (attempts (run (init w) es)). \<exists>q'. url a = search_url q' \<and> 3 \<le> length q')"
proof -
  have "issued_ok (run (init w) es)"
    by (rule issued_ok_run) (simp add: issued_ok_def init_def)
  then have issued:
    "\<forall>a \<in> set (attempts (run (init w) es)). \<exists>q'. url a = search_url q' \<and> 3 \<le> length q'"
    by (simp add: issued_ok_def)
  have quiet: "s = run (init w) pre \<and> (\<forall>e \<in> set post. \<not> supersedes e) \<longrightarrow>
      movies (run (step s (QueryChange q)) post) = Some [] \<and>
      error (run (step s (QueryChange q)) post) = lit '''' \<and>
      map url (attempts (run (step s (QueryChange q)) post)) = map url (attempts s)"
    using assms short_query_quiet by blast
  from assms have now: "movies (step s (QueryChange q)) = Some [] \<and>
      error (step s (QueryChange q)) = lit '''' \<and>
      map url (attempts (step s (QueryChange q))) = map url (attempts s) \<and>
      map phase (attempts (step s (QueryChange q))) = map phase (attempts s)"
    by (simp add: step_QueryChange)
  from now quiet issued show ?thesis by blast
qed

text \<open>
  After a successful search for \<^verbatim>\<open>ali\<close> and with \<^verbatim>\<open>alie\<close> in flight, the query
  \<^verbatim>\<open>al\<close> empties the list and adds no fetch, and the list is still empty after the
  fetch for \<^verbatim>\<open>alie\<close> has been answered; in the run \<^verbatim>\<open>al\<close>, \<^verbatim>\<open>ali\<close> the only fetch
  is the one for \<^verbatim>\<open>ali\<close>.
\<close>

theorem short_query_guard_witness:
  "length (lit ''al'') < 3 \<and>
   mounted (run (init []) [QueryChange (lit ''ali''), FetchSettles 0 (FetchResolved True),
      JsonSettles 0 (JsonResolved sample_found), QueryChange (lit ''alie'')]) \<and>
   movies (step (run (init []) [QueryChange (lit ''ali''), FetchSettles 0 (FetchResolved True),
      JsonSettles 0 (JsonResolved sample_found), QueryChange (lit ''alie'')])
      (QueryChange (lit ''al''))) = Some [] \<and>
   error (step (run (init []) [QueryChange (lit ''ali''), FetchSettles 0 (FetchResolved True),
      JsonSettles 0 (JsonResolved sample_found), QueryChange (lit ''alie'')])
      (QueryChange (lit ''al''))) = lit '''' \<and>
   map url (attempts (step (run (init []) [QueryChange (lit ''ali''),
      FetchSettles 0 (FetchResolved True), JsonSettles 0 (JsonResolved sample_found),
      QueryChange (lit ''alie'')]) (QueryChange (lit ''al''))))
     = [search_url (lit ''ali''), search_url (lit ''alie'')] \<and>
   list_all (\<lambda>e. \<not> supersedes e)
     [FetchSettles 1 (FetchResolved True), JsonSettles 1 (JsonResolved sample_found)] \<and>
   movies (run (step (run (init []) [QueryChange (lit ''ali''), FetchSettles 0 (FetchResolved True),
      JsonSettles 0 (JsonResolved sample_found), QueryChange (lit ''alie'')])
      (QueryChange (lit ''al'')))
      [FetchSettles 1 (FetchResolved True), JsonSettles 1 (JsonResolved sample_found)]) = Some [] \<and>
   (\<exists>q'. url (attempts (run (init []) [QueryChange (lit ''al''), QueryChange (lit ''ali'')]) ! 0)
            = search_url q' \<and> 3 \<le> length q')"
proof -
  let ?pre = "[QueryChange (lit ''ali''), FetchSettles 0 (FetchResolved True),
      JsonSettles 0 (JsonResolved sample_found), QueryChange (lit ''alie'')]"
  let ?s = "run (init []) ?pre"
  let ?post = "[FetchSettles 1 (FetchResolved True), JsonSettles 1 (JsonResolved sample_found)]"
  let ?any = "[QueryChange (lit ''al''), QueryChange (lit ''ali'')]"
  have h1: "length (lit ''al'') < 3" by simp
  have h2: "mounted ?s" by (simp add: eval_defs)
  have h3: "list_all (\<lambda>e. \<not> supersedes e) ?post"
    by (simp add: supersedes_def)
  have urls: "map url (attempts ?s) = [search_url (lit ''ali''), search_url (lit ''alie'')]"
    by (simp add: eval_defs)
  have mem: "attempts (run (init []) ?any) ! 0 \<in> set (attempts (run (init []) ?any))"
    by (simp add: eval_defs)
  note t = short_query_guard [OF h1 h2, where w = "[]" and pre = ?pre and post = ?post and es = ?any]
  from t urls have now: "movies (step ?s (QueryChange (lit ''al''))) = Some [] \<and>
      error (step ?s (QueryChange (lit ''al''))) = lit '''' \<and>
      map url (attempts (step ?s (QueryChange (lit ''al''))))
        = [search_url (lit ''ali''), search_url (lit ''alie'')]"
    by (simp only:)
  from t h3 have later: "movies (run (step ?s (QueryChange (lit ''al''))) ?post) = Some []"
    unfolding list_all_iff by blast
  from t mem have issued:
    "\<exists>q'. url (attempts (run (init []) ?any) ! 0) = search_url q' \<and> 3 \<le> length q'"
    by blast
  from h1 h2 h3 now later issued show ?thesis by blast
qed

subsection \<open>The outcomes of a response\<close>



subsection \<open>The loading flag\<close>







lemma cleaned_Nil [simp]: "cleaned s = [] \<longleftrightarrow> attempts s = []"
  using cleaned_length [of s] by (simp only: length_0_conv [symmetric])


lemma set_phase_Nil [simp]: "attempts (set_phase k p s) = [] \<longleftrightarrow> attempts s = []"
  using set_phase_fields(6) [of k p s] by (simp only: length_0_conv [symmetric])






text \<open>
  Between the start of a fetch and its end the drop can come from a fetch it superseded:
  with \<^verbatim>\<open>alie\<close> in flight, the cancellation of the fetch for \<^verbatim>\<open>ali\<close> clears loading
  while the fetch for \<^verbatim>\<open>alie\<close> still awaits its response.
\<close>

lemma loading_cleared_by_superseded:
  "\<not> isLoading (run (init [])
      [QueryChange (lit ''ali''), QueryChange (lit ''alie''), FetchSettles 0 (FetchResolved True)]) \<and>
   phase (last (attempts (run (init [])
      [QueryChange (lit ''ali''), QueryChange (lit ''alie''), FetchSettles 0 (FetchResolved True)])))
     = AwaitFetch"
  by (simp add: eval_defs)

end
